theory Spec2Isabelle
  imports Main
begin

section \<open>Python strings and built-ins used by the program\<close>

text \<open>
  A Python \<open>str\<close> is modelled as a \<open>string\<close>; a \<open>char\<close> stands for a code point
  below 256. \<open>isspace\<close> is Python's notion of whitespace on that range, the one
  \<open>str.split()\<close> and \<open>str.strip()\<close> use: TAB..CR, FS..US, space, NEL and NBSP.
\<close>

definition isspace :: "char \<Rightarrow> bool" where
  "isspace c = (let n = (of_char c :: nat) in
     (9 \<le> n \<and> n \<le> 13) \<or> (28 \<le> n \<and> n \<le> 32) \<or> n = 133 \<or> n = 160)"

text \<open>
  \<open>text.split()\<close>: the maximal runs of non-whitespace characters, in order. The first
  argument of \<open>split_from\<close> is the word read so far.
\<close>

fun split_from :: "string \<Rightarrow> string \<Rightarrow> string list" where
  "split_from w [] = (if w = [] then [] else [w])"
| "split_from w (c # cs) =
     (if isspace c then (if w = [] then split_from [] cs else w # split_from [] cs)
      else split_from (w @ [c]) cs)"

definition py_split :: "string \<Rightarrow> string list" where
  "py_split s = split_from [] s"

text \<open>\<open>s.strip()\<close>, \<open>s.startswith(p)\<close> and the slice \<open>s[n:]\<close> (which is \<open>drop n s\<close>).\<close>

definition py_strip :: "string \<Rightarrow> string" where
  "py_strip s = rev (dropWhile isspace (rev (dropWhile isspace s)))"

definition startswith :: "string \<Rightarrow> string \<Rightarrow> bool" where
  "startswith s p = (take (length p) s = p)"

text \<open>The exceptions the built-ins used by the program can raise.\<close>

datatype py_error = ValueError | IndexError

text \<open>\<open>max(xs)\<close> raises ValueError on an empty list.\<close>

definition py_max :: "int list \<Rightarrow> py_error + int" where
  "py_max xs = (case xs of [] \<Rightarrow> Inl ValueError | x # rest \<Rightarrow> Inr (foldl max x rest))"

text \<open>\<open>xs[i]\<close> for a non-negative index, and \<open>xs[-1]\<close>: IndexError out of range.\<close>

definition py_index :: "'a list \<Rightarrow> nat \<Rightarrow> py_error + 'a" where
  "py_index xs i = (if i < length xs then Inr (xs ! i) else Inl IndexError)"

definition py_last :: "'a list \<Rightarrow> py_error + 'a" where
  "py_last xs = (if xs = [] then Inl IndexError else Inr (last xs))"

section \<open>chat\_simulator.py\<close>

subsection \<open>The collaborators: fonts, text measurement, randomness\<close>

text \<open>
  \<open>load_ios_fonts\<close> returns two font objects, one for bubble text and one for the
  labels; which files they come from (and the two font sizes) only matters through
  what \<open>textbbox\<close> answers for them. \<open>textbbox\<close> is PIL's
  \<open>draw.textbbox((0, 0), text, font=font)\<close>, the tuple (x0, y0, x1, y1).

  \<open>random.randint(a, b)\<close> returns an integer from a to b, each with the same
  probability. \<open>randint a b\<close> lists these equally likely results. Which of them a
  call returns is decided by the state of the generator at that call; \<open>pick\<close> reads
  the result off the list, and \<open>choice_hour\<close> and \<open>choice_minute\<close> stand for the state
  of the generator at the two calls of one render. (With a > b the library raises
  ValueError; the two calls of the program have a \<le> b.)
\<close>

datatype font = FontBubble | FontTime

type_synonym bbox = "int \<times> int \<times> int \<times> int"

record env =
  textbbox :: "string \<Rightarrow> font \<Rightarrow> bbox"
  choice_hour :: nat
  choice_minute :: nat

definition randint :: "int \<Rightarrow> int \<Rightarrow> int list" where
  "randint a b = [a..b]"

definition pick :: "nat \<Rightarrow> int list \<Rightarrow> int" where
  "pick n outcomes = outcomes ! (n mod length outcomes)"

text \<open>\<open>measure_text(draw_obj, text, font)\<close>, lines 61-67.\<close>

definition measure_text :: "env \<Rightarrow> string \<Rightarrow> font \<Rightarrow> int \<times> int" where
  "measure_text E text font =
     (case textbbox E text font of (x0, y0, x1, y1) \<Rightarrow> (x1 - x0, y1 - y0))"

subsection \<open>generate\_random\_timestamp\<close>

definition digit_char :: "nat \<Rightarrow> char" where
  "digit_char d = ''0123456789'' ! d"

text \<open>
  The decimal numeral of a non-negative integer, and the format \<open>{:02d}\<close>: the
  numeral, filled with zeros on the left up to two characters; a negative number
  has its sign first.
\<close>

fun decimal :: "nat \<Rightarrow> string" where
  "decimal n = (if n < 10 then [digit_char n] else decimal (n div 10) @ [digit_char (n mod 10)])"

definition format_02d :: "int \<Rightarrow> string" where
  "format_02d n =
     (if n < 0 then CHR ''-'' # decimal (nat (- n))
      else (let s = decimal (nat n) in replicate (2 - length s) (CHR ''0'') @ s))"

text \<open>Lines 84-90.\<close>

definition generate_random_timestamp :: "env \<Rightarrow> string" where
  "generate_random_timestamp E =
     (let rand_hour = pick (choice_hour E) (randint 0 23);
          rand_minute = pick (choice_minute E) (randint 0 59)
      in format_02d rand_hour @ '':'' @ format_02d rand_minute)"



subsection \<open>wrap\_text\<close>

text \<open>
  Lines 93-116. The loop state is the pair (lines, current\_line); an empty string is
  falsy in Python.
\<close>

fun wrap_loop :: "env \<Rightarrow> font \<Rightarrow> int \<Rightarrow> string list \<Rightarrow> string list \<times> string \<Rightarrow> string list \<times> string" where
  "wrap_loop E font max_width [] (lines, current_line) = (lines, current_line)"
| "wrap_loop E font max_width (word # words) (lines, current_line) =
     (let test_line = current_line @ (if current_line \<noteq> [] then '' '' else []) @ word;
          w = fst (measure_text E test_line font)
      in if w \<le> max_width then wrap_loop E font max_width words (lines, test_line)
         else wrap_loop E font max_width words
                (if current_line \<noteq> [] then lines @ [current_line] else lines, word))"

definition wrap_text :: "env \<Rightarrow> string \<Rightarrow> font \<Rightarrow> int \<Rightarrow> string list" where
  "wrap_text E text font max_width =
     (case wrap_loop E font max_width (py_split text) ([], []) of
        (lines, current_line) \<Rightarrow>
          if current_line \<noteq> [] then lines @ [current_line] else lines)"

subsection \<open>generate\_chat\_image\<close>

text \<open>
  The keyword arguments of \<open>generate_chat_image\<close> that the layout reads.
  \<open>bubble_font_size\<close> and \<open>time_font_size\<close> are only handed to
  \<open>load_ios_fonts\<close>; they are part of what stands behind \<open>textbbox\<close>.
\<close>

record config =
  output_file :: string
  image_size :: "int \<times> int"
  bottom_padding :: int
  left_margin :: int
  right_margin :: int
  bubble_margin :: int
  same_person_margin :: int

text \<open>The defaults of the signature, lines 119-130.\<close>

definition default_config :: config where
  "default_config =
     \<lparr>output_file = ''conversation.png'', image_size = (1290, 1290), bottom_padding = 65,
      left_margin = 108, right_margin = 108, bubble_margin = 22, same_person_margin = 2\<rparr>"

text \<open>The built-in conversation used when \<open>messages is None\<close>, lines 148-154.\<close>

definition demo_messages :: "(string \<times> string) list" where
  "demo_messages =
     [(''sender'', ''Hello!''),
      (''receiver'', ''Just letting you know the codes are working fine.''),
      (''receiver'', ''This message is intentionally longer, ensuring multiple '' @
                     ''lines for a nice demonstration of wrapping.'')]"

text \<open>What is drawn on the canvas, in drawing order, and the file that is saved.\<close>

type_synonym color = "nat \<times> nat \<times> nat"

datatype draw_op =
    RoundedRectangle bbox int color color int
  | DrawText "int \<times> int" string color font

record image_file =
  file_name :: string
  canvas_size :: "int \<times> int"
  background :: color
  drawn :: "draw_op list"

text \<open>The layout and styling constants, lines 168-172.\<close>

definition bubble_padding :: int where "bubble_padding = 32"
definition line_spacing :: int where "line_spacing = 8"
definition corner_radius :: int where "corner_radius = 50"

text \<open>
  \<open>int((img_width * 0.65) - (2 * bubble_padding))\<close>: \<open>int\<close> truncates towards zero.
  The source multiplies by the binary float 0.65; the model computes with the exact
  fraction 13/20, which gives the same integer for canvas widths of ordinary size.
\<close>

definition bubble_max_text_width :: "int \<Rightarrow> int" where
  "bubble_max_text_width img_width =
     (let n = 13 * img_width - 20 * (2 * bubble_padding)
      in if 0 \<le> n then n div 20 else - ((- n) div 20))"

text \<open>Lines 185-201: the size of the wrapped text and the height of one line.\<close>

definition text_block :: "env \<Rightarrow> string list \<Rightarrow> py_error + (int \<times> int \<times> int)" where
  "text_block E lines =
     (let line_widths = map (\<lambda>line. fst (measure_text E line FontBubble)) lines;
          line_heights = map (\<lambda>line. snd (measure_text E line FontBubble)) lines
      in if lines \<noteq> [] then
           (case py_max line_widths of
              Inl e \<Rightarrow> Inl e
            | Inr text_block_width \<Rightarrow>
                (case py_index line_heights 0 of
                   Inl e \<Rightarrow> Inl e
                 | Inr line_height \<Rightarrow>
                     Inr (text_block_width,
                          sum_list line_heights + line_spacing * (int (length lines) - 1),
                          line_height)))
         else Inr (0, 0, snd (measure_text E ''Test'' FontBubble)))"

text \<open>Lines 210-220: the side of the canvas and the colours, by role.\<close>

definition bubble_side :: "config \<Rightarrow> string \<Rightarrow> int \<Rightarrow> int \<times> int \<times> color \<times> color" where
  "bubble_side C role bubble_width =
     (if role = ''sender'' then
        (let bubble_left = left_margin C
         in (bubble_left, bubble_left + bubble_width, (255, 255, 255), (230, 230, 230)))
      else
        (let bubble_right = fst (image_size C) - right_margin C
         in (bubble_right - bubble_width, bubble_right, (240, 240, 240), (255, 255, 255))))"

text \<open>
  Lines 231-238: the text inside the bubble. \<open>bubble_padding / 2\<close> is the float 16.0
  in the source; the model keeps the integer.
\<close>

fun draw_lines :: "int \<Rightarrow> int \<Rightarrow> int \<Rightarrow> nat \<Rightarrow> (nat \<times> string) list \<Rightarrow> draw_op list" where
  "draw_lines text_x text_y line_height n [] = []"
| "draw_lines text_x text_y line_height n ((idx, line) # rest) =
     DrawText (text_x, text_y) line (0, 0, 0) FontBubble #
     draw_lines text_x
       (text_y + line_height + (if int idx < int n - 1 then line_spacing else 0))
       line_height n rest"

text \<open>Lines 246-257: where the next (older) bubble ends.\<close>

definition next_current_y ::
  "config \<Rightarrow> (string \<times> string) list \<Rightarrow> nat \<Rightarrow> string \<Rightarrow> int \<Rightarrow> py_error + int" where
  "next_current_y C reversed_messages i role bubble_top =
     (if int i < int (length reversed_messages) - 1 then
        (case py_index reversed_messages (i + 1) of
           Inl e \<Rightarrow> Inl e
         | Inr (next_role, _) \<Rightarrow>
             if next_role = role then Inr (bubble_top - same_person_margin C)
             else Inr (bubble_top - bubble_margin C))
      else Inr (bubble_top - bubble_margin C))"

text \<open>The variables the loop of lines 181-257 updates.\<close>

record layout_state =
  ops :: "draw_op list"
  current_y :: int
  bottom_bubble_box :: "bbox option"
  top_bubble_box :: "bbox option"

text \<open>One iteration of the loop, for \<open>(i, (role, text))\<close>.\<close>

definition layout_step ::
  "env \<Rightarrow> config \<Rightarrow> (string \<times> string) list \<Rightarrow> layout_state \<Rightarrow> nat \<times> string \<times> string
     \<Rightarrow> py_error + layout_state" where
  "layout_step E C reversed_messages st item =
     (case item of (i, role, text) \<Rightarrow>
       (let lines = wrap_text E text FontBubble (bubble_max_text_width (fst (image_size C)))
        in (case text_block E lines of
              Inl e \<Rightarrow> Inl e
            | Inr (text_block_width, text_block_height, line_height) \<Rightarrow>
               (let bubble_width = text_block_width + 2 * bubble_padding;
                    bubble_height = text_block_height + 2 * bubble_padding;
                    bubble_bottom = current_y st;
                    bubble_top = bubble_bottom - bubble_height
                in (case bubble_side C role bubble_width of
                      (bubble_left, bubble_right, bubble_color, outline_color) \<Rightarrow>
                       (let box = (bubble_left, bubble_top, bubble_right, bubble_bottom);
                            drawing =
                              RoundedRectangle box corner_radius bubble_color outline_color 3 #
                              draw_lines (bubble_left + bubble_padding)
                                (bubble_top + bubble_padding div 2) line_height (length lines)
                                (enumerate 0 lines)
                        in (case next_current_y C reversed_messages i role bubble_top of
                              Inl e \<Rightarrow> Inl e
                            | Inr y \<Rightarrow>
                                Inr \<lparr>ops = ops st @ drawing,
                                     current_y = y,
                                     bottom_bubble_box =
                                       (if i = 0 then Some box else bottom_bubble_box st),
                                     top_bubble_box =
                                       (if int i = int (length reversed_messages) - 1
                                        then Some box else top_bubble_box st)\<rparr>)))))))"

fun layout_loop ::
  "env \<Rightarrow> config \<Rightarrow> (string \<times> string) list \<Rightarrow> (nat \<times> string \<times> string) list \<Rightarrow> layout_state
     \<Rightarrow> py_error + layout_state" where
  "layout_loop E C reversed_messages [] st = Inr st"
| "layout_loop E C reversed_messages (item # items) st =
     (case layout_step E C reversed_messages st item of
        Inl e \<Rightarrow> Inl e
      | Inr st' \<Rightarrow> layout_loop E C reversed_messages items st')"

text \<open>Lines 259-268: the label under the newest bubble.\<close>

definition seen_label :: "env \<Rightarrow> (string \<times> string) list \<Rightarrow> bbox option \<Rightarrow> py_error + draw_op list" where
  "seen_label E messages bottom_box =
     (case bottom_box of
        None \<Rightarrow> Inr []
      | Some (l, t, r, b) \<Rightarrow>
          (case py_last messages of
             Inl e \<Rightarrow> Inl e
           | Inr (newest_role, _) \<Rightarrow>
               if newest_role = ''receiver'' then
                 (let seen_text = ''Seen just now'';
                      seen_width = fst (measure_text E seen_text FontTime)
                  in Inr [DrawText (r - seen_width, b + 10) seen_text (128, 128, 128) FontTime])
               else Inr []))"

text \<open>Lines 270-276: the clock time over the oldest bubble.\<close>

definition time_label :: "env \<Rightarrow> config \<Rightarrow> string \<Rightarrow> bbox option \<Rightarrow> draw_op list" where
  "time_label E C time_text top_box =
     (case top_box of
        None \<Rightarrow> []
      | Some (l, t, r, b) \<Rightarrow>
          (case measure_text E time_text FontTime of
             (time_width, time_height) \<Rightarrow>
               [DrawText (fst (image_size C) div 2 - time_width div 2, t - time_height - 50)
                  time_text (128, 128, 128) FontTime]))"

text \<open>
  Lines 148-280. The result is the exception raised, or the image handed to
  \<open>img.save(output_file)\<close>.
\<close>

definition generate_chat_image ::
  "env \<Rightarrow> config \<Rightarrow> (string \<times> string) list option \<Rightarrow> py_error + image_file" where
  "generate_chat_image E C messages_arg =
     (let messages = (case messages_arg of None \<Rightarrow> demo_messages | Some ms \<Rightarrow> ms);
          time_text = generate_random_timestamp E;
          st0 = \<lparr>ops = [], current_y = snd (image_size C) - bottom_padding C,
                 bottom_bubble_box = None, top_bubble_box = None\<rparr>;
          reversed_messages = rev messages
      in case layout_loop E C reversed_messages (enumerate 0 reversed_messages) st0 of
           Inl e \<Rightarrow> Inl e
         | Inr st \<Rightarrow>
             (case seen_label E messages (bottom_bubble_box st) of
                Inl e \<Rightarrow> Inl e
              | Inr seen \<Rightarrow>
                  Inr \<lparr>file_name = output_file C, canvas_size = image_size C,
                       background = (255, 255, 255),
                       drawn = ops st @ seen @ time_label E C time_text (top_bubble_box st)\<rparr>))"

subsection \<open>Reading the result\<close>

text \<open>
  A box is the tuple \<open>(left, top, right, bottom)\<close> given to \<open>rounded_rectangle\<close>; the
  y axis of the canvas points down.
\<close>

definition box_left :: "bbox \<Rightarrow> int" where "box_left b = fst b"
definition box_top :: "bbox \<Rightarrow> int" where "box_top b = fst (snd b)"
definition box_right :: "bbox \<Rightarrow> int" where "box_right b = fst (snd (snd b))"
definition box_bottom :: "bbox \<Rightarrow> int" where "box_bottom b = snd (snd (snd b))"

text \<open>The bubble boxes among the drawing operations, in drawing order (newest first).\<close>

fun bubble_boxes :: "draw_op list \<Rightarrow> bbox list" where
  "bubble_boxes [] = []"
| "bubble_boxes (RoundedRectangle box radius fill outline width # rest) = box # bubble_boxes rest"
| "bubble_boxes (DrawText pos text fill font # rest) = bubble_boxes rest"

text \<open>The texts drawn with the label font: the "seen" label and the clock time.\<close>

fun label_ops :: "draw_op list \<Rightarrow> draw_op list" where
  "label_ops [] = []"
| "label_ops (RoundedRectangle box radius fill outline width # rest) = label_ops rest"
| "label_ops (DrawText pos text fill font # rest) =
     (if font = FontTime then DrawText pos text fill font # label_ops rest else label_ops rest)"

definition rendered_boxes :: "env \<Rightarrow> config \<Rightarrow> (string \<times> string) list \<Rightarrow> bbox list" where
  "rendered_boxes E C messages =
     (case generate_chat_image E C (Some messages) of
        Inl e \<Rightarrow> []
      | Inr img \<Rightarrow> bubble_boxes (drawn img))"

definition rendered_labels :: "env \<Rightarrow> config \<Rightarrow> (string \<times> string) list \<Rightarrow> draw_op list" where
  "rendered_labels E C messages =
     (case generate_chat_image E C (Some messages) of
        Inl e \<Rightarrow> []
      | Inr img \<Rightarrow> label_ops (drawn img))"

text \<open>
  The box the loop body computes for one message when the cursor is at \<open>y\<close>, the gap
  it leaves above that box, and the boxes of a run of messages: the loop of lines
  181-257 with the canvas left out.
\<close>

definition bubble_box :: "env \<Rightarrow> config \<Rightarrow> int \<Rightarrow> string \<Rightarrow> string \<Rightarrow> bbox" where
  "bubble_box E C y role text =
     (case text_block E
             (wrap_text E text FontBubble (bubble_max_text_width (fst (image_size C)))) of
        Inl e \<Rightarrow> (0, 0, 0, 0)
      | Inr (text_block_width, text_block_height, line_height) \<Rightarrow>
          (case bubble_side C role (text_block_width + 2 * bubble_padding) of
             (bubble_left, bubble_right, bubble_color, outline_color) \<Rightarrow>
               (bubble_left, y - (text_block_height + 2 * bubble_padding), bubble_right, y)))"

definition gap_above :: "config \<Rightarrow> string \<Rightarrow> (string \<times> string) list \<Rightarrow> int" where
  "gap_above C role older =
     (case older of
        [] \<Rightarrow> bubble_margin C
      | (next_role, next_text) # rest \<Rightarrow>
          if next_role = role then same_person_margin C else bubble_margin C)"

fun boxes_from :: "env \<Rightarrow> config \<Rightarrow> int \<Rightarrow> (string \<times> string) list \<Rightarrow> bbox list" where
  "boxes_from E C y [] = []"
| "boxes_from E C y ((role, text) # older) =
     bubble_box E C y role text #
     boxes_from E C (box_top (bubble_box E C y role text) - gap_above C role older) older"

text \<open>\<open>" ".join(lines)\<close>, used to state that wrapping again changes nothing.\<close>

fun join_spaces :: "string list \<Rightarrow> string" where
  "join_spaces [] = []"
| "join_spaces [l] = l"
| "join_spaces (l # l' # ls) = l @ '' '' @ join_spaces (l' # ls)"

subsection \<open>Concrete inputs\<close>

text \<open>
  A measurement collaborator to evaluate the program with: every character is 20
  wide and every text 30 high; the two draws are 7 and 5 (the results the
  generator states 7 and 5 select). The messages and the
  configuration below are those of the script's \<open>__main__\<close> block, lines 285-301.
\<close>

definition sample_env :: env where
  "sample_env =
     \<lparr>textbbox = (\<lambda>text font. (0, 0, 20 * int (length text), 30)),
      choice_hour = 7, choice_minute = 5\<rparr>"

definition sample_messages :: "(string \<times> string) list" where
  "sample_messages =
     [(''sender'', ''How do I slow down?''),
      (''receiver'', ''Breathe. Notice the small things. Let go of the rest.''),
      (''receiver'', ''Another message from the same person to test spacing.'')]"

definition main_config :: config where
  "main_config =
     \<lparr>output_file = ''conversation.png'', image_size = (1290, 1290), bottom_padding = 280,
      left_margin = 190, right_margin = 40, bubble_margin = 30, same_person_margin = 10\<rparr>"

section \<open>chat\_parser.py\<close>

text \<open>
  \<open>for line in f\<close> on a file opened in text mode: the lines of the decoded content,
  each with its line end, where \<open>\n\<close>, \<open>\r\n\<close> and \<open>\r\<close> all end a line and are read
  as \<open>\n\<close>. The first argument is the line read so far.
\<close>

fun lines_from :: "string \<Rightarrow> string \<Rightarrow> string list" where
  "lines_from cur [] = (if cur = [] then [] else [cur])"
| "lines_from cur [c] =
     (if c = CHR 0x0A \<or> c = CHR 0x0D then [cur @ [CHR 0x0A]] else [cur @ [c]])"
| "lines_from cur (c # d # cs) =
     (if c = CHR 0x0A then (cur @ [CHR 0x0A]) # lines_from [] (d # cs)
      else if c = CHR 0x0D then
        (if d = CHR 0x0A then (cur @ [CHR 0x0A]) # lines_from [] cs
         else (cur @ [CHR 0x0A]) # lines_from [] (d # cs))
      else lines_from (cur @ [c]) (d # cs))"

definition file_lines :: "string \<Rightarrow> string list" where
  "file_lines content = lines_from [] content"

text \<open>
  Lines 12-37 of \<open>parse_conversations\<close>; the argument is the content of the file at
  \<open>file_path\<close>. The loop state is (conversations, current\_conversation).
\<close>

fun parse_loop ::
  "string list \<Rightarrow> (string \<times> string) list list \<times> (string \<times> string) list
     \<Rightarrow> (string \<times> string) list list \<times> (string \<times> string) list" where
  "parse_loop [] (conversations, current_conversation) = (conversations, current_conversation)"
| "parse_loop (line # rest) (conversations, current_conversation) =
     (let stripped = py_strip line
      in if startswith stripped ''A: '' then
           parse_loop rest
             (conversations, current_conversation @ [(''sender'', py_strip (drop 3 stripped))])
         else if startswith stripped ''B: '' then
           parse_loop rest
             (conversations, current_conversation @ [(''receiver'', py_strip (drop 3 stripped))])
         else if current_conversation \<noteq> [] then
           parse_loop rest (conversations @ [current_conversation], [])
         else parse_loop rest (conversations, current_conversation))"

definition parse_conversations :: "string \<Rightarrow> (string \<times> string) list list" where
  "parse_conversations content =
     (case parse_loop (file_lines content) ([], []) of
        (conversations, current_conversation) \<Rightarrow>
          if current_conversation \<noteq> [] then conversations @ [current_conversation]
          else conversations)"

subsection \<open>The segmenter as the specification words it\<close>

text \<open>
  A line is a turn of a speaker or a delimiter. Speaker A is the role \<open>sender\<close>,
  speaker B the role \<open>receiver\<close>. \<open>classify_raw\<close> reads the prefix off the line as it
  stands in the file. \<open>classify_indented\<close> reads it off the line without its leading
  whitespace (\<open>str.lstrip()\<close>), so that an indented turn is a turn.
  \<open>classify_trimmed\<close> is the test the loop body of \<open>parse_conversations\<close> makes, on
  the line stripped at both ends.
\<close>

datatype line_class = Turn string string | Delimiter

definition classify_raw :: "string \<Rightarrow> line_class" where
  "classify_raw line =
     (if startswith line ''A: '' then Turn ''sender'' (py_strip (drop 3 line))
      else if startswith line ''B: '' then Turn ''receiver'' (py_strip (drop 3 line))
      else Delimiter)"

definition py_lstrip :: "string \<Rightarrow> string" where
  "py_lstrip s = dropWhile isspace s"

definition classify_indented :: "string \<Rightarrow> line_class" where
  "classify_indented line = classify_raw (py_lstrip line)"

definition classify_trimmed :: "string \<Rightarrow> line_class" where
  "classify_trimmed line = classify_raw (py_strip line)"

text \<open>A turn whose text is empty.\<close>

fun empty_turn :: "line_class \<Rightarrow> bool" where
  "empty_turn (Turn role msg) = (msg = [])"
| "empty_turn Delimiter = False"

text \<open>
  The conversations: the maximal runs of turns between delimiters, the empty runs
  left out.
\<close>

fun runs :: "line_class list \<Rightarrow> (string \<times> string) list list" where
  "runs [] = [ []]"
| "runs (Delimiter # ls) = [] # runs ls"
| "runs (Turn role text # ls) = ((role, text) # hd (runs ls)) # tl (runs ls)"

definition segment :: "line_class list \<Rightarrow> (string \<times> string) list list" where
  "segment ls = filter (\<lambda>conversation. conversation \<noteq> []) (runs ls)"

subsection \<open>What the theorems ask of the measurement\<close>

text \<open>Measured widths and heights of bubble text are not negative.\<close>

abbreviation nonneg_measure :: "env \<Rightarrow> bool" where
  "nonneg_measure E \<equiv> (\<forall>s. 0 \<le> fst (measure_text E s FontBubble) \<and> 0 \<le> snd (measure_text E s FontBubble))"

section \<open>Properties of the text wrapper\<close>

lemma split_from_sep:
  "isspace c \<Longrightarrow> split_from w (a @ c # b) = split_from w a @ split_from [] b"
  by (induction a arbitrary: w) auto

lemma split_from_word:
  "\<forall>c\<in>set a. \<not> isspace c \<Longrightarrow> split_from w a = (if w @ a = [] then [] else [w @ a])"
  by (induction a arbitrary: w) auto

lemma split_from_nospace:
  "\<forall>c\<in>set w. \<not> isspace c \<Longrightarrow>
   \<forall>x\<in>set (split_from w s). x \<noteq> [] \<and> (\<forall>c\<in>set x. \<not> isspace c)"
proof (induction s arbitrary: w)
  case Nil
  then show ?case by simp
next
  case (Cons a s)
  show ?case
  proof (cases "isspace a")
    case True
    have "\<forall>x\<in>set (split_from [] s). x \<noteq> [] \<and> (\<forall>c\<in>set x. \<not> isspace c)"
      using Cons.IH[of "[]"] by simp
    with True Cons.prems show ?thesis by auto
  next
    case False
    with Cons.prems have "\<forall>c\<in>set (w @ [a]). \<not> isspace c" by simp
    from Cons.IH[OF this] False show ?thesis by simp
  qed
qed

lemma py_split_word:
  "x \<in> set (py_split s) \<Longrightarrow> x \<noteq> [] \<and> (\<forall>c\<in>set x. \<not> isspace c)"
  unfolding py_split_def using split_from_nospace[of "[]" s] by simp

lemma py_split_single:
  "x \<noteq> [] \<Longrightarrow> \<forall>c\<in>set x. \<not> isspace c \<Longrightarrow> py_split x = [x]"
  unfolding py_split_def by (simp add: split_from_word)

lemma isspace_space: "isspace (CHR '' '')"
  by (simp add: isspace_def)

lemma py_split_append_space:
  "py_split (a @ CHR '' '' # b) = py_split a @ py_split b"
  unfolding py_split_def using split_from_sep[OF isspace_space, of "[]" a b] by simp


lemma py_split_join_spaces: "py_split (join_spaces ls) = concat (map py_split ls)"
  proof (induction ls rule: join_spaces.induct)
  case 1
  show ?case by (simp add: py_split_def)
next
  case (2 l)
  show ?case by simp
next
  case (3 l l' ls)
  then show ?case by (simp add: py_split_append_space)
qed

lemma wrap_loop_words:
  "\<forall>x\<in>set words. py_split x = [x] \<Longrightarrow>
   wrap_loop E font mw words (lines, cur) = (lines', cur') \<Longrightarrow>
   concat (map py_split lines') @ py_split cur' =
     concat (map py_split lines) @ py_split cur @ words"
proof (induction words arbitrary: lines cur)
  case Nil
  then show ?case by simp
next
  case (Cons word words)
  have w: "py_split word = [word]" and ws: "\<forall>x\<in>set words. py_split x = [x]"
    using Cons.prems(1) by simp_all
  have e: "py_split [] = []" by (simp add: py_split_def)
  let ?t = "cur @ (if cur \<noteq> [] then '' '' else []) @ word"
  have t: "py_split ?t = py_split cur @ [word]"
    using w e by (simp add: py_split_append_space)
  show ?case
  proof (cases "fst (measure_text E ?t font) \<le> mw")
    case True
    with Cons.prems(2) have "wrap_loop E font mw words (lines, ?t) = (lines', cur')"
      by (simp add: Let_def)
    from Cons.IH[OF ws this] t show ?thesis by simp
  next
    case False
    with Cons.prems(2)
    have "wrap_loop E font mw words (if cur \<noteq> [] then lines @ [cur] else lines, word) = (lines', cur')"
      by (simp add: Let_def)
    from Cons.IH[OF ws this] w e show ?thesis by (simp split: if_splits)
  qed
qed

lemma wrap_text_words:
  "concat (map py_split (wrap_text E text font mw)) = py_split text"
proof -
  obtain lines cur where r: "wrap_loop E font mw (py_split text) ([], []) = (lines, cur)"
    by (cases "wrap_loop E font mw (py_split text) ([], [])") auto
  have "\<forall>x\<in>set (py_split text). py_split x = [x]"
    using py_split_word py_split_single by blast
  from wrap_loop_words[OF this r]
  have "concat (map py_split lines) @ py_split cur = py_split text"
    by (simp add: py_split_def)
  moreover have "py_split [] = []" by (simp add: py_split_def)
  ultimately show ?thesis
    by (auto simp: wrap_text_def r)
qed

text \<open>
  Claim C6. Wrapping is idempotent: joining the lines that \<open>wrap_text\<close> returns with
  single spaces and wrapping the result again, with the same font, measurement and
  maximum width, returns the same lines. This holds for every text, every width and
  every measurement.
\<close>

theorem wrap_text_idempotent:
  "wrap_text E (join_spaces (wrap_text E text font max_width)) font max_width =
   wrap_text E text font max_width"
proof -
  have "py_split (join_spaces (wrap_text E text font max_width)) = py_split text"
    by (simp add: py_split_join_spaces wrap_text_words)
  then show ?thesis
    by (simp add: wrap_text_def)
qed

lemma wrap_loop_fits:
  assumes "wrap_loop E font mw words (lines, cur) = (lines', cur')"
    and "set words \<subseteq> W"
    and "\<forall>l\<in>set lines. fst (measure_text E l font) \<le> mw \<or> l \<in> W"
    and "cur = [] \<or> fst (measure_text E cur font) \<le> mw \<or> cur \<in> W"
  shows "(\<forall>l\<in>set lines'. fst (measure_text E l font) \<le> mw \<or> l \<in> W) \<and>
         (cur' = [] \<or> fst (measure_text E cur' font) \<le> mw \<or> cur' \<in> W)"
  using assms
proof (induction words arbitrary: lines cur)
  case Nil
  then show ?case by simp
next
  case (Cons word words)
  let ?t = "cur @ (if cur \<noteq> [] then '' '' else []) @ word"
  show ?case
  proof (cases "fst (measure_text E ?t font) \<le> mw")
    case True
    with Cons.prems(1) have r: "wrap_loop E font mw words (lines, ?t) = (lines', cur')"
      by (simp add: Let_def)
    show ?thesis
      by (rule Cons.IH[OF r]) (use Cons.prems True in auto)
  next
    case False
    with Cons.prems(1)
    have r: "wrap_loop E font mw words (if cur \<noteq> [] then lines @ [cur] else lines, word) = (lines', cur')"
      by (simp add: Let_def)
    show ?thesis
      by (rule Cons.IH[OF r]) (use Cons.prems in auto)
  qed
qed

text \<open>
  Claim C5. Every line that \<open>wrap_text\<close> returns is at most \<open>max_width\<close> wide as
  measured, except when the line is one single word of the text (no whitespace in
  it) that is itself wider than \<open>max_width\<close>: such a word stands whole on a line of
  its own.
\<close>

theorem wrap_text_no_overflow:
  assumes "line \<in> set (wrap_text E text font max_width)"
  shows "fst (measure_text E line font) \<le> max_width \<or>
         (line \<in> set (py_split text) \<and> (\<forall>c\<in>set line. \<not> isspace c) \<and>
          max_width < fst (measure_text E line font))"
proof -
  obtain lines cur where r: "wrap_loop E font max_width (py_split text) ([], []) = (lines, cur)"
    by (cases "wrap_loop E font max_width (py_split text) ([], [])") auto
  have inv: "(\<forall>l\<in>set lines. fst (measure_text E l font) \<le> max_width \<or> l \<in> set (py_split text)) \<and>
         (cur = [] \<or> fst (measure_text E cur font) \<le> max_width \<or> cur \<in> set (py_split text))"
    by (rule wrap_loop_fits[OF r]) simp_all
  from assms have "line \<in> set lines \<or> (line = cur \<and> cur \<noteq> [])"
    by (auto simp: wrap_text_def r split: if_splits)
  with inv have "fst (measure_text E line font) \<le> max_width \<or> line \<in> set (py_split text)"
    by auto
  then show ?thesis
    using py_split_word[of line "text"] by (cases "fst (measure_text E line font) \<le> max_width") auto
qed

theorem wrap_text_no_overflow_witness:
  "''abcdef'' \<in> set (wrap_text sample_env ''ab abcdef cd'' FontBubble 60) \<and>
   ''abcdef'' \<in> set (py_split ''ab abcdef cd'') \<and>
   60 < fst (measure_text sample_env ''abcdef'' FontBubble)"
proof -
  have m: "''abcdef'' \<in> set (wrap_text sample_env ''ab abcdef cd'' FontBubble 60)"
    by (simp add: wrap_text_def py_split_def isspace_def measure_text_def sample_env_def)
  from wrap_text_no_overflow[OF m] m show ?thesis
    by (simp add: measure_text_def sample_env_def)
qed

section \<open>Properties of the layout\<close>

lemma foldl_max_ge: "(x::int) \<le> foldl max x xs"
proof (induction xs arbitrary: x)
  case Nil
  show ?case by simp
next
  case (Cons y ys)
  have "x \<le> max x y" by simp
  also have "\<dots> \<le> foldl max (max x y) ys" by (rule Cons.IH)
  finally show ?case by simp
qed

lemma text_block_total:
  "\<exists>w h lh. text_block E lines = Inr (w, h, lh) \<and>
     (lines = [] \<longrightarrow> w = 0 \<and> h = 0) \<and>
     (nonneg_measure E \<longrightarrow> 0 \<le> w \<and> 0 \<le> h)"
proof (cases lines)
  case Nil
  then show ?thesis by (simp add: text_block_def)
next
  case (Cons l ls)
  let ?w = "foldl max (fst (measure_text E l FontBubble)) (map (\<lambda>line. fst (measure_text E line FontBubble)) ls)"
  let ?h = "sum_list (map (\<lambda>line. snd (measure_text E line FontBubble)) lines) + line_spacing * (int (length lines) - 1)"
  have eq: "text_block E lines = Inr (?w, ?h, snd (measure_text E l FontBubble))"
    using Cons by (simp add: text_block_def py_max_def py_index_def)
  have "0 \<le> ?w \<and> 0 \<le> ?h" if nn: "nonneg_measure E"
  proof
    have "0 \<le> fst (measure_text E l FontBubble)" using nn by simp
    also have "\<dots> \<le> ?w" by (rule foldl_max_ge)
    finally show "0 \<le> ?w" .
    have "0 \<le> sum_list (map (\<lambda>line. snd (measure_text E line FontBubble)) lines)"
      using nn by (intro sum_list_nonneg) auto
    moreover have "0 \<le> line_spacing * (int (length lines) - 1)"
      using Cons by (simp add: line_spacing_def)
    ultimately show "0 \<le> ?h" by simp
  qed
  with eq Cons show ?thesis by auto
qed

lemma wrap_text_blank: "py_split text = [] \<Longrightarrow> wrap_text E text font mw = []"
  by (simp add: wrap_text_def)

lemma py_split_blank: "\<forall>c\<in>set s. isspace c \<Longrightarrow> split_from [] s = []"
  by (induction s) auto

lemma bubble_box_props:
  "box_bottom (bubble_box E C y role text) = y \<and>
   (if role = ''sender'' then box_left (bubble_box E C y role text) = left_margin C
    else box_right (bubble_box E C y role text) = fst (image_size C) - right_margin C) \<and>
   (nonneg_measure E \<longrightarrow>
      box_left (bubble_box E C y role text) < box_right (bubble_box E C y role text) \<and>
      box_top (bubble_box E C y role text) < box_bottom (bubble_box E C y role text)) \<and>
   (py_split text = [] \<longrightarrow>
      box_right (bubble_box E C y role text) - box_left (bubble_box E C y role text) = 2 * bubble_padding \<and>
      box_bottom (bubble_box E C y role text) - box_top (bubble_box E C y role text) = 2 * bubble_padding)"
proof -
  let ?lines = "wrap_text E text FontBubble (bubble_max_text_width (fst (image_size C)))"
  obtain w h lh where tb: "text_block E ?lines = Inr (w, h, lh)"
    and z: "?lines = [] \<longrightarrow> w = 0 \<and> h = 0"
    and nn: "nonneg_measure E \<longrightarrow> 0 \<le> w \<and> 0 \<le> h"
    using text_block_total[of E ?lines] by blast
  have blank: "py_split text = [] \<longrightarrow> w = 0 \<and> h = 0"
    using z wrap_text_blank by simp
  show ?thesis
    using nn blank
    by (auto simp add: bubble_box_def tb bubble_side_def box_left_def box_right_def box_top_def
        box_bottom_def bubble_padding_def Let_def)
qed


lemma bubble_boxes_append: "bubble_boxes (xs @ ys) = bubble_boxes xs @ bubble_boxes ys"
  by (induction xs rule: bubble_boxes.induct) simp_all

lemma label_ops_append: "label_ops (xs @ ys) = label_ops xs @ label_ops ys"
  by (induction xs rule: label_ops.induct) simp_all

lemma bubble_boxes_draw_lines: "bubble_boxes (draw_lines x y lh n ls) = []"
  by (induction x y lh n ls rule: draw_lines.induct) simp_all

lemma label_ops_draw_lines: "label_ops (draw_lines x y lh n ls) = []"
  by (induction x y lh n ls rule: draw_lines.induct) simp_all

lemma next_current_y_ok:
  "next_current_y C (pre @ (role, text) # older) (length pre) role t =
     Inr (t - gap_above C role older)"
proof (cases older)
  case Nil
  then show ?thesis by (simp add: next_current_y_def gap_above_def)
next
  case (Cons m rest)
  obtain next_role next_text where m: "m = (next_role, next_text)" by (cases m)
  have "(pre @ (role, text) # older) ! (length pre + 1) = (next_role, next_text)"
    using Cons m by (simp add: nth_append)
  then show ?thesis
    using Cons m by (simp add: next_current_y_def gap_above_def py_index_def)
qed

lemma layout_step_ok:
  assumes rm: "rm = pre @ (role, text) # older"
  shows "\<exists>st'. layout_step E C rm st (length pre, role, text) = Inr st' \<and>
     bubble_boxes (ops st') = bubble_boxes (ops st) @ [bubble_box E C (current_y st) role text] \<and>
     label_ops (ops st') = label_ops (ops st) \<and>
     current_y st' = box_top (bubble_box E C (current_y st) role text) - gap_above C role older \<and>
     bottom_bubble_box st' =
       (if pre = [] then Some (bubble_box E C (current_y st) role text) else bottom_bubble_box st) \<and>
     top_bubble_box st' =
       (if older = [] then Some (bubble_box E C (current_y st) role text) else top_bubble_box st)"
proof -
  let ?lines = "wrap_text E text FontBubble (bubble_max_text_width (fst (image_size C)))"
  obtain w h lh where tb: "text_block E ?lines = Inr (w, h, lh)"
    using text_block_total[of E ?lines] by blast
  obtain l r c1 c2 where side: "bubble_side C role (w + 2 * bubble_padding) = (l, r, c1, c2)"
    by (cases "bubble_side C role (w + 2 * bubble_padding)") auto
  have box: "bubble_box E C (current_y st) role text = (l, current_y st - (h + 2 * bubble_padding), r, current_y st)"
    by (simp add: bubble_box_def tb side)
  have last_iff: "(int (length pre) = int (length rm) - 1) = (older = [])"
    using rm by auto
  have ncy: "\<And>t. next_current_y C rm (length pre) role t = Inr (t - gap_above C role older)"
    unfolding rm by (rule next_current_y_ok)
  show ?thesis
    by (simp add: layout_step_def tb side box Let_def last_iff ncy bubble_boxes_append
          label_ops_append bubble_boxes_draw_lines label_ops_draw_lines box_top_def)
qed

lemma length_boxes_from: "length (boxes_from E C y ms) = length ms"
  by (induction E C y ms rule: boxes_from.induct) simp_all

lemma layout_loop_ok:
  "rm = pre @ rest \<Longrightarrow>
   \<exists>st'. layout_loop E C rm (enumerate (length pre) rest) st = Inr st' \<and>
     bubble_boxes (ops st') = bubble_boxes (ops st) @ boxes_from E C (current_y st) rest \<and>
     label_ops (ops st') = label_ops (ops st) \<and>
     bottom_bubble_box st' =
       (if pre = [] \<and> rest \<noteq> [] then Some (hd (boxes_from E C (current_y st) rest))
        else bottom_bubble_box st) \<and>
     top_bubble_box st' =
       (if rest \<noteq> [] then Some (last (boxes_from E C (current_y st) rest))
        else top_bubble_box st)"
proof (induction rest arbitrary: pre st)
  case Nil
  then show ?case by simp
next
  case (Cons m older)
  obtain role msg where m: "m = (role, msg)" by (cases m)
  let ?box = "bubble_box E C (current_y st) role msg"
  from Cons.prems m have rm: "rm = pre @ (role, msg) # older" by simp
  from layout_step_ok[OF rm, of E C st] obtain st1 where
    step: "layout_step E C rm st (length pre, role, msg) = Inr st1"
    and b1: "bubble_boxes (ops st1) = bubble_boxes (ops st) @ [?box]"
    and l1: "label_ops (ops st1) = label_ops (ops st)"
    and y1: "current_y st1 = box_top ?box - gap_above C role older"
    and bot1: "bottom_bubble_box st1 = (if pre = [] then Some ?box else bottom_bubble_box st)"
    and top1: "top_bubble_box st1 = (if older = [] then Some ?box else top_bubble_box st)"
    by blast
  have rm': "rm = (pre @ [(role, msg)]) @ older" using rm by simp
  from Cons.IH[OF rm', of st1] obtain st' where
    loop: "layout_loop E C rm (enumerate (Suc (length pre)) older) st1 = Inr st'"
    and b2: "bubble_boxes (ops st') = bubble_boxes (ops st1) @ boxes_from E C (current_y st1) older"
    and l2: "label_ops (ops st') = label_ops (ops st1)"
    and bot2: "bottom_bubble_box st' = bottom_bubble_box st1"
    and top2: "top_bubble_box st' =
       (if older \<noteq> [] then Some (last (boxes_from E C (current_y st1) older))
        else top_bubble_box st1)"
    by auto
  have ne: "older \<noteq> [] \<Longrightarrow> boxes_from E C (current_y st1) older \<noteq> []"
    using length_boxes_from[of E C "current_y st1" older] by auto
  have "layout_loop E C rm (enumerate (length pre) (m # older)) st = Inr st'"
    using step loop m by simp
  moreover have "bubble_boxes (ops st') = bubble_boxes (ops st) @ boxes_from E C (current_y st) (m # older)"
    using b1 b2 y1 m by simp
  moreover have "label_ops (ops st') = label_ops (ops st)"
    using l1 l2 by simp
  moreover have "bottom_bubble_box st' =
       (if pre = [] then Some (hd (boxes_from E C (current_y st) (m # older)))
        else bottom_bubble_box st)"
    using bot1 bot2 m by simp
  moreover have "top_bubble_box st' = Some (last (boxes_from E C (current_y st) (m # older)))"
    using top1 top2 y1 m ne by simp
  ultimately show ?case by simp
qed


lemma boxes_from_nth:
  "i < length ms \<Longrightarrow>
   \<exists>y. boxes_from E C y0 ms ! i = bubble_box E C y (fst (ms ! i)) (snd (ms ! i))"
proof (induction ms arbitrary: y0 i)
  case Nil
  then show ?case by simp
next
  case (Cons m older)
  obtain role msg where m: "m = (role, msg)" by (cases m)
  show ?case
  proof (cases i)
    case 0
    then show ?thesis using m by auto
  next
    case (Suc j)
    with Cons.prems have "j < length older" by simp
    from Cons.IH[OF this] Suc m show ?thesis by simp
  qed
qed

lemma boxes_from_gap:
  "Suc i < length ms \<Longrightarrow>
   box_top (boxes_from E C y0 ms ! i) - box_bottom (boxes_from E C y0 ms ! Suc i) =
     (if fst (ms ! Suc i) = fst (ms ! i) then same_person_margin C else bubble_margin C)"
proof (induction ms arbitrary: y0 i)
  case Nil
  then show ?case by simp
next
  case (Cons m older)
  obtain role msg where m: "m = (role, msg)" by (cases m)
  show ?case
  proof (cases i)
    case 0
    with Cons.prems obtain next_role next_msg rest where
      older: "older = (next_role, next_msg) # rest"
      by (cases older) auto
    have "box_bottom (bubble_box E C y next_role next_msg) = y" for y
      using bubble_box_props[of E C y next_role next_msg] by simp
    then show ?thesis
      using 0 m older by (simp add: gap_above_def)
  next
    case (Suc j)
    with Cons.prems have "Suc j < length older" by simp
    from Cons.IH[OF this] Suc m show ?thesis by simp
  qed
qed

lemma generate_chat_image_ok:
  "\<exists>img. generate_chat_image E C (Some messages) = Inr img \<and>
     file_name img = output_file C \<and>
     bubble_boxes (drawn img) =
       boxes_from E C (snd (image_size C) - bottom_padding C) (rev messages) \<and>
     label_ops (drawn img) =
       (if messages \<noteq> [] \<and> fst (last messages) = ''receiver'' then
          [DrawText
             (box_right (hd (boxes_from E C (snd (image_size C) - bottom_padding C) (rev messages)))
                - fst (measure_text E ''Seen just now'' FontTime),
              box_bottom (hd (boxes_from E C (snd (image_size C) - bottom_padding C) (rev messages)))
                + 10)
             ''Seen just now'' (128, 128, 128) FontTime]
        else []) @
       (if messages \<noteq> [] then
          [DrawText
             (fst (image_size C) div 2
                - fst (measure_text E (generate_random_timestamp E) FontTime) div 2,
              box_top (last (boxes_from E C (snd (image_size C) - bottom_padding C) (rev messages)))
                - snd (measure_text E (generate_random_timestamp E) FontTime) - 50)
             (generate_random_timestamp E) (128, 128, 128) FontTime]
        else [])"
proof -
  let ?st0 = "\<lparr>ops = [], current_y = snd (image_size C) - bottom_padding C,
                 bottom_bubble_box = None, top_bubble_box = None\<rparr>"
  let ?bs = "boxes_from E C (snd (image_size C) - bottom_padding C) (rev messages)"
  have "rev messages = [] @ rev messages" by simp
  from layout_loop_ok[OF this, of E C ?st0] obtain st where
    loop: "layout_loop E C (rev messages) (enumerate 0 (rev messages)) ?st0 = Inr st"
    and bs: "bubble_boxes (ops st) = ?bs"
    and ls: "label_ops (ops st) = []"
    and bot: "bottom_bubble_box st = (if messages \<noteq> [] then Some (hd ?bs) else None)"
    and top: "top_bubble_box st = (if messages \<noteq> [] then Some (last ?bs) else None)"
    by auto
  show ?thesis
  proof (cases "messages = []")
    case True
    with loop bs ls bot top show ?thesis
      by (simp add: generate_chat_image_def seen_label_def time_label_def)
  next
    case False
    obtain l t r b where nb: "hd ?bs = (l, t, r, b)" by (cases "hd ?bs") auto
    obtain l' t' r' b' where ob: "last ?bs = (l', t', r', b')" by (cases "last ?bs") auto
    obtain newest_role newest_msg where lm: "last messages = (newest_role, newest_msg)"
      by (cases "last messages") auto
    obtain tw th where tm: "measure_text E (generate_random_timestamp E) FontTime = (tw, th)"
      by (cases "measure_text E (generate_random_timestamp E) FontTime") auto
    from False loop bs ls bot top nb ob lm tm show ?thesis
      by (simp add: generate_chat_image_def seen_label_def time_label_def py_last_def Let_def
            bubble_boxes_append label_ops_append box_right_def box_bottom_def box_top_def)
  qed
qed

lemma rendered_boxes_eq:
  "rendered_boxes E C messages =
     boxes_from E C (snd (image_size C) - bottom_padding C) (rev messages)"
  using generate_chat_image_ok[of E C messages] by (auto simp: rendered_boxes_def)

lemma length_rendered_boxes: "length (rendered_boxes E C messages) = length messages"
  by (simp add: rendered_boxes_eq length_boxes_from)

text \<open>
  Claim C1, as amended. The claim says that \<open>generate_chat_image\<close> with an empty
  list of messages fails fast and saves no image. The function has no such check:
  the loop body never runs, both annotations are skipped by their \<open>is not None\<close>
  guards, and the blank canvas is saved under \<open>output_file\<close>. So for every
  configuration and measurement, an empty conversation raises nothing and saves an
  image on which nothing is drawn.
\<close>

theorem empty_conversation_saved:
  "generate_chat_image E C (Some []) =
     Inr \<lparr>file_name = output_file C, canvas_size = image_size C,
          background = (255, 255, 255), drawn = []\<rparr>"
  by (simp add: generate_chat_image_def seen_label_def time_label_def)

text \<open>
  With the default configuration the call returns normally, with the blank image
  saved as \<open>conversation.png\<close>.
\<close>

theorem empty_conversation_counterexample:
  "generate_chat_image sample_env default_config (Some []) =
     Inr \<lparr>file_name = ''conversation.png'', canvas_size = (1290, 1290),
          background = (255, 255, 255), drawn = []\<rparr>"
  by (simp add: generate_chat_image_def seen_label_def time_label_def default_config_def)

text \<open>
  Claim C3. The boxes are listed in processing order, newest first, one for each
  message. For every bubble after the first processed one, the distance from its
  bottom edge up to the top edge of the bubble processed before it is
  \<open>same_person_margin\<close> when the two turns have the same role and \<open>bubble_margin\<close>
  when they differ; so, the two gaps not being negative, its bottom edge is not
  below that top edge (the y axis points down).
\<close>

theorem vertical_ordering:
  assumes "Suc i < length messages"
  shows "length (rendered_boxes E C messages) = length messages \<and>
         box_top (rendered_boxes E C messages ! i)
           - box_bottom (rendered_boxes E C messages ! Suc i) =
           (if fst (rev messages ! Suc i) = fst (rev messages ! i) then same_person_margin C
            else bubble_margin C) \<and>
         (0 \<le> same_person_margin C \<and> 0 \<le> bubble_margin C \<longrightarrow>
            box_bottom (rendered_boxes E C messages ! Suc i)
              \<le> box_top (rendered_boxes E C messages ! i))"
proof -
  from assms have "Suc i < length (rev messages)" by simp
  from boxes_from_gap[OF this, of E C "snd (image_size C) - bottom_padding C"]
  have gap: "box_top (rendered_boxes E C messages ! i)
           - box_bottom (rendered_boxes E C messages ! Suc i) =
           (if fst (rev messages ! Suc i) = fst (rev messages ! i) then same_person_margin C
            else bubble_margin C)"
    by (simp add: rendered_boxes_eq)
  then have "0 \<le> same_person_margin C \<and> 0 \<le> bubble_margin C \<longrightarrow>
            box_bottom (rendered_boxes E C messages ! Suc i)
              \<le> box_top (rendered_boxes E C messages ! i)"
    by (auto split: if_splits)
  with gap show ?thesis by (simp add: length_rendered_boxes)
qed

theorem vertical_ordering_witness:
  "Suc 0 < length sample_messages \<and>
   box_top (rendered_boxes sample_env main_config sample_messages ! 0)
     - box_bottom (rendered_boxes sample_env main_config sample_messages ! Suc 0) = 10 \<and>
   box_bottom (rendered_boxes sample_env main_config sample_messages ! Suc 0)
     \<le> box_top (rendered_boxes sample_env main_config sample_messages ! 0)"
proof -
  have len: "Suc 0 < length sample_messages"
    by (simp add: sample_messages_def)
  have roles: "fst (rev sample_messages ! Suc 0) = fst (rev sample_messages ! 0)"
    by (simp add: sample_messages_def)
  have cfg: "same_person_margin main_config = 10" "bubble_margin main_config = 30"
    by (simp_all add: main_config_def)
  from vertical_ordering[OF len, of sample_env main_config] roles cfg len
  show ?thesis by simp
qed

lemma rendered_box_nth:
  "i < length messages \<Longrightarrow>
   \<exists>y. rendered_boxes E C messages ! i =
         bubble_box E C y (fst (rev messages ! i)) (snd (rev messages ! i))"
  using boxes_from_nth[of i "rev messages" E C "snd (image_size C) - bottom_padding C"]
  by (simp add: rendered_boxes_eq)

text \<open>
  Claim C4. Every bubble box of a sender turn (speaker A) has its left edge at
  \<open>left_margin\<close>, every box of a receiver turn (speaker B) has its right edge at the
  canvas width minus \<open>right_margin\<close>; and, measured text sizes not being negative,
  every box has right > left and bottom > top.
\<close>

theorem bubble_box_anchoring:
  assumes "i < length messages"
  shows "length (rendered_boxes E C messages) = length messages \<and>
         (fst (rev messages ! i) = ''sender'' \<longrightarrow>
            box_left (rendered_boxes E C messages ! i) = left_margin C) \<and>
         (fst (rev messages ! i) = ''receiver'' \<longrightarrow>
            box_right (rendered_boxes E C messages ! i) = fst (image_size C) - right_margin C) \<and>
         ((\<forall>s. 0 \<le> fst (measure_text E s FontBubble) \<and> 0 \<le> snd (measure_text E s FontBubble)) \<longrightarrow>
            box_left (rendered_boxes E C messages ! i) < box_right (rendered_boxes E C messages ! i) \<and>
            box_top (rendered_boxes E C messages ! i) < box_bottom (rendered_boxes E C messages ! i))"
proof -
  from rendered_box_nth[OF assms, of E C] obtain y where
    b: "rendered_boxes E C messages ! i =
          bubble_box E C y (fst (rev messages ! i)) (snd (rev messages ! i))" by blast
  show ?thesis
    using bubble_box_props[of E C y "fst (rev messages ! i)" "snd (rev messages ! i)"]
    by (auto simp: b length_rendered_boxes split: if_splits)
qed

lemma sample_env_nonneg:
  "0 \<le> fst (measure_text sample_env s font) \<and> 0 \<le> snd (measure_text sample_env s font)"
  by (simp add: measure_text_def sample_env_def)

theorem bubble_box_anchoring_witness:
  "0 < length sample_messages \<and>
   fst (rev sample_messages ! 0) = ''receiver'' \<and>
   box_right (rendered_boxes sample_env main_config sample_messages ! 0) = 1250 \<and>
   box_left (rendered_boxes sample_env main_config sample_messages ! 0)
     < box_right (rendered_boxes sample_env main_config sample_messages ! 0) \<and>
   box_top (rendered_boxes sample_env main_config sample_messages ! 0)
     < box_bottom (rendered_boxes sample_env main_config sample_messages ! 0)"
proof -
  have len: "0 < length sample_messages"
    by (simp add: sample_messages_def)
  have role: "fst (rev sample_messages ! 0) = ''receiver''"
    by (simp add: sample_messages_def)
  have cfg: "fst (image_size main_config) - right_margin main_config = 1250"
    by (simp add: main_config_def)
  from bubble_box_anchoring[OF len, of sample_env main_config] role cfg len sample_env_nonneg
  show ?thesis by simp
qed

text \<open>
  Claim C7, as amended. For a message whose text is empty or whitespace only,
  \<open>wrap_text\<close> returns no line, the render raises nothing, and the bubble of that
  message is exactly \<open>2 * bubble_padding\<close> wide and \<open>2 * bubble_padding\<close> high: the
  bubble is padding only. The height measured for the placeholder \<open>"Test"\<close> is
  computed but enters neither the box nor anything drawn, so the bubble is not one
  line tall as the claim has it.
\<close>

theorem blank_message_bubble:
  assumes "i < length messages" and "\<forall>c\<in>set (snd (rev messages ! i)). isspace c"
  shows "wrap_text E (snd (rev messages ! i)) FontBubble mw = [] \<and>
         (\<exists>img. generate_chat_image E C (Some messages) = Inr img) \<and>
         length (rendered_boxes E C messages) = length messages \<and>
         box_right (rendered_boxes E C messages ! i) - box_left (rendered_boxes E C messages ! i)
           = 2 * bubble_padding \<and>
         box_bottom (rendered_boxes E C messages ! i) - box_top (rendered_boxes E C messages ! i)
           = 2 * bubble_padding"
proof -
  have blank: "py_split (snd (rev messages ! i)) = []"
    using assms(2) by (simp add: py_split_def py_split_blank)
  from rendered_box_nth[OF assms(1), of E C] obtain y where
    b: "rendered_boxes E C messages ! i =
          bubble_box E C y (fst (rev messages ! i)) (snd (rev messages ! i))" by blast
  have "\<exists>img. generate_chat_image E C (Some messages) = Inr img"
    using generate_chat_image_ok[of E C messages] by blast
  then show ?thesis
    using bubble_box_props[of E C y "fst (rev messages ! i)" "snd (rev messages ! i)"] blank
    by (simp add: b length_rendered_boxes wrap_text_blank)
qed

theorem blank_message_bubble_witness:
  "wrap_text sample_env ''  '' FontBubble 774 = [] \<and>
   box_right (rendered_boxes sample_env default_config [(''sender'', ''  '')] ! 0)
     - box_left (rendered_boxes sample_env default_config [(''sender'', ''  '')] ! 0) = 64 \<and>
   box_bottom (rendered_boxes sample_env default_config [(''sender'', ''  '')] ! 0)
     - box_top (rendered_boxes sample_env default_config [(''sender'', ''  '')] ! 0) = 64"
proof -
  have len: "0 < length [(''sender'', ''  '')]" by simp
  have sp: "\<forall>c\<in>set (snd (rev [(''sender'', ''  '')] ! 0)). isspace c"
    by (simp add: isspace_def)
  from blank_message_bubble[OF len sp, of sample_env 774 default_config]
  show ?thesis by (simp add: bubble_padding_def)
qed

text \<open>
  With a measurement that makes every line 30 high (the placeholder too), the
  bubble of an empty message is 64 high, and a bubble of one line is 94 high.
\<close>

theorem blank_message_bubble_counterexample:
  "snd (measure_text sample_env ''Test'' FontBubble) = 30 \<and>
   rendered_boxes sample_env default_config [(''sender'', '''')] = [(108, 1161, 172, 1225)] \<and>
   rendered_boxes sample_env default_config [(''sender'', ''x'')] = [(108, 1131, 192, 1225)]"
  by (simp add: rendered_boxes_eq bubble_box_def text_block_def wrap_text_def py_split_def 
      isspace_def measure_text_def sample_env_def default_config_def bubble_side_def
      bubble_max_text_width_def bubble_padding_def line_spacing_def py_max_def py_index_def
      box_top_def Let_def)

text \<open>
  Claim C10. Called with \<open>messages = None\<close>, \<open>generate_chat_image\<close> raises nothing
  and renders the built-in conversation of three messages, one of the sender
  followed by two of the receiver: the result is that of the call with those three
  messages, and three bubbles are drawn.
\<close>

theorem default_messages_demo:
  "generate_chat_image E C None = generate_chat_image E C (Some demo_messages) \<and>
   (\<exists>img. generate_chat_image E C None = Inr img \<and> length (bubble_boxes (drawn img)) = 3) \<and>
   map fst demo_messages = [''sender'', ''receiver'', ''receiver'']"
proof -
  have eq: "generate_chat_image E C None = generate_chat_image E C (Some demo_messages)"
    by (simp add: generate_chat_image_def)
  from generate_chat_image_ok[of E C demo_messages] obtain img where
    img: "generate_chat_image E C (Some demo_messages) = Inr img"
    and bs: "bubble_boxes (drawn img) =
       boxes_from E C (snd (image_size C) - bottom_padding C) (rev demo_messages)"
    by blast
  have "length (bubble_boxes (drawn img)) = 3"
    by (simp add: bs length_boxes_from) (simp add: demo_messages_def)
  with eq img show ?thesis by (simp add: demo_messages_def)
qed

lemma mem_label_ops:
  "(DrawText pos s fill FontTime \<in> set (label_ops xs)) = (DrawText pos s fill FontTime \<in> set xs)"
  by (induction xs rule: label_ops.induct) auto

lemma timestamp_not_seen: "generate_random_timestamp E \<noteq> ''Seen just now''"
proof
  assume "generate_random_timestamp E = ''Seen just now''"
  moreover have "CHR '':'' \<in> set (generate_random_timestamp E)"
    by (simp add: generate_random_timestamp_def Let_def)
  ultimately show False by simp
qed


text \<open>
  Claim C9. For every conversation that is not empty, the label \<open>Seen just now\<close> is
  drawn if and only if the role of the chronologically last message is \<open>receiver\<close>
  (speaker B); when it is drawn, its right end is the right edge of the newest
  bubble (its x position is that edge minus the measured width of the label), it is
  10 below the bottom edge of that bubble, and it is grey. A conversation that ends
  with a sender turn has no such label. The newest bubble is the first one drawn.
\<close>

theorem seen_label_iff:
  assumes "messages \<noteq> []"
  shows "\<exists>img seen_width. generate_chat_image E C (Some messages) = Inr img \<and>
     seen_width = fst (measure_text E ''Seen just now'' FontTime) \<and>
     (\<forall>pos fill.
        (DrawText pos ''Seen just now'' fill FontTime \<in> set (drawn img)) =
        (fst (last messages) = ''receiver'' \<and>
         pos = (box_right (hd (rendered_boxes E C messages)) - seen_width,
                box_bottom (hd (rendered_boxes E C messages)) + 10) \<and>
         fill = (128, 128, 128)))"
proof -
  from generate_chat_image_ok[of E C messages] obtain img where
    img: "generate_chat_image E C (Some messages) = Inr img"
    and ls: "label_ops (drawn img) =
       (if messages \<noteq> [] \<and> fst (last messages) = ''receiver'' then
          [DrawText
             (box_right (hd (boxes_from E C (snd (image_size C) - bottom_padding C) (rev messages)))
                - fst (measure_text E ''Seen just now'' FontTime),
              box_bottom (hd (boxes_from E C (snd (image_size C) - bottom_padding C) (rev messages)))
                + 10)
             ''Seen just now'' (128, 128, 128) FontTime]
        else []) @
       (if messages \<noteq> [] then
          [DrawText
             (fst (image_size C) div 2
                - fst (measure_text E (generate_random_timestamp E) FontTime) div 2,
              box_top (last (boxes_from E C (snd (image_size C) - bottom_padding C) (rev messages)))
                - snd (measure_text E (generate_random_timestamp E) FontTime) - 50)
             (generate_random_timestamp E) (128, 128, 128) FontTime]
        else [])"
    by blast
  have "(DrawText pos ''Seen just now'' fill FontTime \<in> set (drawn img)) =
        (fst (last messages) = ''receiver'' \<and>
         pos = (box_right (hd (rendered_boxes E C messages))
                  - fst (measure_text E ''Seen just now'' FontTime),
                box_bottom (hd (rendered_boxes E C messages)) + 10) \<and>
         fill = (128, 128, 128))" for pos fill
  proof -
    have "(DrawText pos ''Seen just now'' fill FontTime \<in> set (drawn img)) =
          (DrawText pos ''Seen just now'' fill FontTime \<in> set (label_ops (drawn img)))"
      by (simp add: mem_label_ops)
    then show ?thesis
      using timestamp_not_seen[of E] assms
      by (auto simp add: ls rendered_boxes_eq)
  qed
  with img show ?thesis by blast
qed

theorem seen_label_iff_witness:
  "sample_messages \<noteq> [] \<and> fst (last sample_messages) = ''receiver'' \<and>
   (\<exists>img. generate_chat_image sample_env main_config (Some sample_messages) = Inr img \<and>
      DrawText (box_right (hd (rendered_boxes sample_env main_config sample_messages)) - 260,
                box_bottom (hd (rendered_boxes sample_env main_config sample_messages)) + 10)
        ''Seen just now'' (128, 128, 128) FontTime \<in> set (drawn img))"
proof -
  have ne: "sample_messages \<noteq> []" and r: "fst (last sample_messages) = ''receiver''"
    by (simp_all add: sample_messages_def)
  have w: "fst (measure_text sample_env ''Seen just now'' FontTime) = 260"
    by (simp add: measure_text_def sample_env_def)
  from seen_label_iff[OF ne, of sample_env main_config] ne r w
  show ?thesis by auto
qed

section \<open>Properties of the segmenter\<close>

lemma runs_nonempty: "runs ls \<noteq> []"
  by (induction ls rule: runs.induct) simp_all

lemma runs_hd_tl: "hd (runs ls) # tl (runs ls) = runs ls"
  by (simp add: runs_nonempty)

lemma parse_loop_runs:
  "parse_loop ls (conversations, current) = (conversations', current') \<Longrightarrow>
   conversations' @ (if current' \<noteq> [] then [current'] else []) =
     conversations @
     filter (\<lambda>conversation. conversation \<noteq> [])
       ((current @ hd (runs (map classify_trimmed ls))) # tl (runs (map classify_trimmed ls)))"
proof (induction ls arbitrary: conversations current)
  case Nil
  then show ?case by auto
next
  case (Cons line rest)
  let ?s = "py_strip line"
  let ?R = "runs (map classify_trimmed rest)"
  show ?case
  proof (cases "startswith ?s ''A: ''")
    case True
    then have c: "classify_trimmed line = Turn ''sender'' (py_strip (drop 3 ?s))"
      by (simp add: classify_trimmed_def classify_raw_def)
    from Cons.prems True
    have "parse_loop rest (conversations, current @ [(''sender'', py_strip (drop 3 ?s))]) =
            (conversations', current')"
      by (simp add: Let_def)
    from Cons.IH[OF this] show ?thesis by (simp add: c)
  next
    case notA: False
    show ?thesis
    proof (cases "startswith ?s ''B: ''")
      case True
      with notA have c: "classify_trimmed line = Turn ''receiver'' (py_strip (drop 3 ?s))"
        by (simp add: classify_trimmed_def classify_raw_def)
      from Cons.prems True notA
      have "parse_loop rest (conversations, current @ [(''receiver'', py_strip (drop 3 ?s))]) =
              (conversations', current')"
        by (simp add: Let_def)
      from Cons.IH[OF this] show ?thesis by (simp add: c)
    next
      case False
      with notA have c: "classify_trimmed line = Delimiter"
        by (simp add: classify_trimmed_def classify_raw_def)
      show ?thesis
      proof (cases "current = []")
        case True
        with Cons.prems notA False
        have "parse_loop rest (conversations, []) = (conversations', current')"
          by (simp add: Let_def)
        from Cons.IH[OF this] True show ?thesis by (simp add: c runs_hd_tl)
      next
        case ne: False
        with Cons.prems notA False
        have "parse_loop rest (conversations @ [current], []) = (conversations', current')"
          by (simp add: Let_def)
        from Cons.IH[OF this] ne show ?thesis by (simp add: c runs_hd_tl)
      qed
    qed
  qed
qed

lemma py_strip_blank: "\<forall>c\<in>set s. isspace c \<Longrightarrow> py_strip s = []"
proof -
  assume "\<forall>c\<in>set s. isspace c"
  then have d: "dropWhile isspace s = []" by (simp add: dropWhile_eq_Nil_conv)
  show ?thesis unfolding py_strip_def d by simp
qed

lemma py_strip_append_blank:
  assumes "\<forall>c\<in>set ws. isspace c"
  shows "py_strip (y @ ws) = py_strip y"
proof (cases "\<forall>c\<in>set y. isspace c")
  case True
  with assms have "\<forall>c\<in>set (y @ ws). isspace c" by auto
  then have "py_strip (y @ ws) = []" by (rule py_strip_blank)
  moreover from True have "py_strip y = []" by (rule py_strip_blank)
  ultimately show ?thesis by simp
next
  case False
  then obtain x where "x \<in> set y" and "\<not> isspace x" by blast
  then have "dropWhile isspace (y @ ws) = dropWhile isspace y @ ws"
    by (rule dropWhile_append1)
  moreover have "dropWhile isspace (rev ws @ rev (dropWhile isspace y)) =
      dropWhile isspace (rev (dropWhile isspace y))"
  proof (rule dropWhile_append2)
    fix x assume "x \<in> set (rev ws)"
    with assms show "isspace x" by simp
  qed
  ultimately show ?thesis by (simp add: py_strip_def)
qed

lemma py_strip_split:
  "\<exists>ws. (\<forall>c\<in>set ws. isspace c) \<and> py_lstrip line = py_strip line @ ws"
proof -
  let ?m = "dropWhile isspace line"
  have "rev (takeWhile isspace (rev ?m) @ dropWhile isspace (rev ?m)) = ?m"
    by (simp only: takeWhile_dropWhile_id rev_rev_ident)
  then have "?m = rev (dropWhile isspace (rev ?m)) @ rev (takeWhile isspace (rev ?m))"
    by (simp only: rev_append)
  moreover have "\<forall>c\<in>set (rev (takeWhile isspace (rev ?m))). isspace c"
    by (auto dest: set_takeWhileD)
  ultimately have "(\<forall>c\<in>set (rev (takeWhile isspace (rev ?m))). isspace c) \<and>
      py_lstrip line = py_strip line @ rev (takeWhile isspace (rev ?m))"
    unfolding py_lstrip_def py_strip_def by simp
  then show ?thesis by (rule exI)
qed

lemma drop_strip_text:
  "py_strip (drop n (py_strip line)) = py_strip (drop n (py_lstrip line))"
proof -
  from py_strip_split[of line] obtain ws where
    ws: "\<forall>c\<in>set ws. isspace c" and m: "py_lstrip line = py_strip line @ ws" by blast
  have "\<forall>c\<in>set (drop (n - length (py_strip line)) ws). isspace c"
    using ws by (auto dest: in_set_dropD)
  then show ?thesis
    by (simp add: m py_strip_append_blank)
qed

lemma startswith_strip_lstrip:
  "startswith (py_strip line) p \<Longrightarrow> startswith (py_lstrip line) p"
proof -
  assume a: "startswith (py_strip line) p"
  from py_strip_split[of line] obtain ws where
    m: "py_lstrip line = py_strip line @ ws" by blast
  from a have t: "take (length p) (py_strip line) = p" by (simp add: startswith_def)
  have "length (take (length p) (py_strip line)) = length p"
    by (simp only: t)
  then have "length p \<le> length (py_strip line)"
    by simp
  with t show ?thesis by (simp add: startswith_def m)
qed

lemma startswith_lstrip_only:
  assumes "startswith (py_lstrip line) p" and "\<not> startswith (py_strip line) p"
  shows "py_strip (drop (length p) (py_lstrip line)) = []"
proof -
  from py_strip_split[of line] obtain ws where
    ws: "\<forall>c\<in>set ws. isspace c" and m: "py_lstrip line = py_strip line @ ws" by blast
  from assms(1) have t: "take (length p) (py_strip line @ ws) = p"
    unfolding startswith_def m .
  from assms(2) have nt: "take (length p) (py_strip line) \<noteq> p"
    unfolding startswith_def .
  have short: "length (py_strip line) < length p"
  proof (rule ccontr)
    assume "\<not> length (py_strip line) < length p"
    then have "take (length p) (py_strip line @ ws) = take (length p) (py_strip line)"
      by simp
    with t nt show False by (simp only:)
  qed
  then have "drop (length p) (py_strip line @ ws) = drop (length p - length (py_strip line)) ws"
    by simp
  moreover have "\<forall>c\<in>set (drop (length p - length (py_strip line)) ws). isspace c"
    using ws by (auto dest: in_set_dropD)
  ultimately show ?thesis unfolding m by (simp only: py_strip_blank)
qed

lemma classify_agree:
  assumes "\<not> empty_turn (classify_indented line)"
  shows "classify_trimmed line = classify_indented line"
proof (cases "startswith (py_strip line) ''A: ''")
  case True
  with startswith_strip_lstrip[OF True] show ?thesis
    using drop_strip_text[of 3 line]
    by (simp add: classify_trimmed_def classify_indented_def classify_raw_def)
next
  case notA: False
  have notA': "\<not> startswith (py_lstrip line) ''A: ''"
  proof
    assume s: "startswith (py_lstrip line) ''A: ''"
    from startswith_lstrip_only[OF s notA]
    have "py_strip (drop 3 (py_lstrip line)) = []"
      by (simp add: numeral_3_eq_3)
    then have "classify_indented line = Turn ''sender'' []"
      using s by (simp add: classify_indented_def classify_raw_def)
    with assms show False by simp
  qed
  show ?thesis
  proof (cases "startswith (py_strip line) ''B: ''")
    case True
    with startswith_strip_lstrip[OF True] notA notA' show ?thesis
      using drop_strip_text[of 3 line]
      by (simp add: classify_trimmed_def classify_indented_def classify_raw_def)
  next
    case notB: False
    have "\<not> startswith (py_lstrip line) ''B: ''"
    proof
      assume s: "startswith (py_lstrip line) ''B: ''"
      from startswith_lstrip_only[OF s notB]
      have "py_strip (drop 3 (py_lstrip line)) = []"
        by (simp add: numeral_3_eq_3)
      then have "classify_indented line = Turn ''receiver'' []"
        using s notA' by (simp add: classify_indented_def classify_raw_def)
      with assms show False by simp
    qed
    with notA notA' notB show ?thesis
      by (simp add: classify_trimmed_def classify_indented_def classify_raw_def)
  qed
qed

lemma parse_conversations_runs:
  "parse_conversations content = segment (map classify_trimmed (file_lines content))"
proof -
  obtain conversations current where
    r: "parse_loop (file_lines content) ([], []) = (conversations, current)"
    by (cases "parse_loop (file_lines content) ([], [])") auto
  from parse_loop_runs[OF r] show ?thesis
    by (auto simp add: parse_conversations_def r segment_def runs_hd_tl split: if_splits)
qed

text \<open>
  Claim C2, as amended. The claim classifies a line by the prefix of the line as it
  stands; \<open>parse_conversations\<close> strips the line before it tests the prefix, so an
  indented turn line is a turn too. For every transcript in which no turn line has
  an empty text: a line that, its leading whitespace left aside, starts with
  \<open>"A: "\<close> is a sender turn (speaker A), one that so starts with \<open>"B: "\<close> is a
  receiver turn (speaker B), in both cases with the stripped remainder as the text,
  and every other line, a blank one included, is a delimiter; the result is the
  list of the maximal runs of turns between delimiters that are not empty, the last
  run included. For every transcript, no conversation of the result has zero
  turns, and the transcript of the claim yields exactly the two conversations it
  names. Nothing is stated here of a turn line whose text is empty.
\<close>

theorem parse_conversations_segments:
  "((\<forall>line\<in>set (file_lines content). \<not> empty_turn (classify_indented line)) \<longrightarrow>
      parse_conversations content = segment (map classify_indented (file_lines content))) \<and>
   [] \<notin> set (parse_conversations content) \<and>
   parse_conversations ''A: hi\<newline>B: yo\<newline>\<newline>A: bye\<newline>'' =
     [ [(''sender'', ''hi''), (''receiver'', ''yo'')], [(''sender'', ''bye'')]]"
proof -
  have "parse_conversations content = segment (map classify_indented (file_lines content))"
    if "\<forall>line\<in>set (file_lines content). \<not> empty_turn (classify_indented line)"
  proof -
    from that have "map classify_trimmed (file_lines content) =
        map classify_indented (file_lines content)"
      by (simp add: classify_agree)
    then show ?thesis by (simp only: parse_conversations_runs)
  qed
  moreover have "[] \<notin> set (parse_conversations content)"
    by (simp add: parse_conversations_runs segment_def)
  moreover have "parse_conversations ''A: hi\<newline>B: yo\<newline>\<newline>A: bye\<newline>'' =
     [ [(''sender'', ''hi''), (''receiver'', ''yo'')], [(''sender'', ''bye'')]]"
    by (simp add: parse_conversations_def file_lines_def py_strip_def startswith_def isspace_def)
  ultimately show ?thesis by blast
qed

theorem parse_conversations_segments_witness:
  "map classify_indented (file_lines ''A: hi\<newline> B: yo\<newline>\<newline>A: bye\<newline>'') =
     [Turn ''sender'' ''hi'', Turn ''receiver'' ''yo'', Delimiter, Turn ''sender'' ''bye''] \<and>
   parse_conversations ''A: hi\<newline> B: yo\<newline>\<newline>A: bye\<newline>'' =
     segment (map classify_indented (file_lines ''A: hi\<newline> B: yo\<newline>\<newline>A: bye\<newline>''))"
proof -
  have cls: "map classify_indented (file_lines ''A: hi\<newline> B: yo\<newline>\<newline>A: bye\<newline>'') =
     [Turn ''sender'' ''hi'', Turn ''receiver'' ''yo'', Delimiter, Turn ''sender'' ''bye'']"
    by (simp add: file_lines_def classify_indented_def classify_raw_def py_lstrip_def
          py_strip_def startswith_def isspace_def)
  have "\<forall>c\<in>set (map classify_indented
            (file_lines ''A: hi\<newline> B: yo\<newline>\<newline>A: bye\<newline>'')). \<not> empty_turn c"
    unfolding cls by simp
  then have hyp: "\<forall>line\<in>set (file_lines ''A: hi\<newline> B: yo\<newline>\<newline>A: bye\<newline>'').
      \<not> empty_turn (classify_indented line)"
    by simp
  from parse_conversations_segments[of "''A: hi\<newline> B: yo\<newline>\<newline>A: bye\<newline>''"] hyp
  have "parse_conversations ''A: hi\<newline> B: yo\<newline>\<newline>A: bye\<newline>'' =
     segment (map classify_indented (file_lines ''A: hi\<newline> B: yo\<newline>\<newline>A: bye\<newline>''))"
    by (elim conjE impE)
  with cls show ?thesis by (intro conjI)
qed

text \<open>
  The line \<open>" A: hi"\<close> does not start with the prefix, so it is a delimiter as the
  claim words it; for the program it is a sender turn.
\<close>

theorem parse_conversations_counterexample:
  "parse_conversations '' A: hi'' = [ [(''sender'', ''hi'')]] \<and>
   segment (map classify_raw (file_lines '' A: hi'')) = []"
  by (simp add: parse_conversations_def file_lines_def py_strip_def startswith_def isspace_def
        segment_def classify_raw_def)

section \<open>Properties of the clock time\<close>



















end
